theory Spec2Isabelle
  imports
    Main
    "HOL-Library.Word"
    "HOL-Library.Signed_Division"
    "HOL-Library.List_Lexorder"
    "HOL-Library.Multiset"
begin

unbundle bit_operations_syntax

section \<open>The median aggregate of \<^verbatim>\<open>median.c\<close>\<close>

text \<open>
  \<^verbatim>\<open>median.c\<close> implements an aggregate for PostgreSQL 12: the transition function
  \<^verbatim>\<open>median_transfn\<close> is called once per row and keeps the values seen so far in a singly
  linked list in ascending order; the final function \<^verbatim>\<open>median_finalfn\<close> walks to the
  middle of that list.

  What belongs to the host and not to the file is modelled as follows.
  \<^item> A \<^verbatim>\<open>Datum\<close> is a 64-bit machine word, as on the 64-bit platforms of
    PostgreSQL 12. The integer and float kinds are passed by value
    (\<^verbatim>\<open>DatumGetInt64\<close>, \<^verbatim>\<open>DatumGetInt32\<close>, \<^verbatim>\<open>DatumGetInt16\<close>, \<^verbatim>\<open>DatumGetFloat4\<close>,
    \<^verbatim>\<open>DatumGetFloat8\<close> read the low bits of the word); a text datum is a pointer, and
    \<^verbatim>\<open>text_to_cstring(DatumGetTextPP(d))\<close> is the parameter \<open>txt\<close> of the model: the
    bytes of the C string the host stores behind \<open>d\<close>. The file keeps the pointer
    and not a copy of the text; the model takes the memory behind it to stay as it
    is for the whole aggregation.
  \<^item> \<^verbatim>\<open>AggCheckCallContext\<close> is the boolean parameter \<open>agg\<close>, and
    \<^verbatim>\<open>get_fn_expr_argtype(fcinfo->flinfo, 1)\<close> is the parameter \<open>argtype\<close>.
  \<^item> \<^verbatim>\<open>MemoryContextAlloc\<close> always returns a fresh object, so no two lists share a node
    and a chain of \<^verbatim>\<open>SortVals\<close> nodes from a head pointer to \<^verbatim>\<open>NULL\<close> is the list of
    its \<^verbatim>\<open>val\<close> fields; the \<^verbatim>\<open>NULL\<close> head is the empty list. Allocation failure is not
    modelled.
  \<^item> \<^verbatim>\<open>elog(ERROR, ...)\<close> leaves the function with an error, \<^verbatim>\<open>elog(LOG, ...)\<close> only
    writes to the server log and is left out. Reading a field through a \<^verbatim>\<open>NULL\<close> pointer
    is the failure \<open>Null_Dereference\<close>.
\<close>

subsection \<open>Datums and type identifiers\<close>

type_synonym Datum = "64 word"

type_synonym Oid = "32 word"

text \<open>The type identifiers of \<^verbatim>\<open>catalog/pg_type_d.h\<close> that the switch names.\<close>

definition INT8OID :: Oid where "INT8OID = 20"
definition INT2OID :: Oid where "INT2OID = 21"
definition INT4OID :: Oid where "INT4OID = 23"
definition TEXTOID :: Oid where "TEXTOID = 25"
definition FLOAT4OID :: Oid where "FLOAT4OID = 700"
definition FLOAT8OID :: Oid where "FLOAT8OID = 701"
definition TIMESTAMPTZOID :: Oid where "TIMESTAMPTZOID = 1184"

definition DatumGetInt64 :: "Datum \<Rightarrow> 64 word" where
  "DatumGetInt64 X = X"

definition DatumGetInt32 :: "Datum \<Rightarrow> 32 word" where
  "DatumGetInt32 X = ucast X"

definition DatumGetInt16 :: "Datum \<Rightarrow> 16 word" where
  "DatumGetInt16 X = ucast X"

text \<open>
  A C \<^verbatim>\<open>float\<close> or \<^verbatim>\<open>double\<close> is represented by its IEEE-754 bit pattern:
  \<^verbatim>\<open>DatumGetFloat4\<close> reinterprets the low 32 bits, \<^verbatim>\<open>DatumGetFloat8\<close> all 64.
\<close>

definition DatumGetFloat4 :: "Datum \<Rightarrow> 32 word" where
  "DatumGetFloat4 X = ucast X"

definition DatumGetFloat8 :: "Datum \<Rightarrow> 64 word" where
  "DatumGetFloat8 X = X"

subsection \<open>The comparisons of C\<close>

text \<open>
  \<^verbatim>\<open><=\<close> on IEEE-754 numbers. Without its sign bit a pattern is the number
  \<open>m = e * 2 ^ p + f\<close> of its exponent field \<open>e\<close> and its fraction field \<open>f\<close>,
  with \<open>p = 52\<close> fraction bits and the bias 1023 for a \<^verbatim>\<open>double\<close>, \<open>p = 23\<close> and
  the bias 127 for a \<^verbatim>\<open>float\<close>. A pattern with all bits of \<open>e\<close> set and \<open>f\<close> not
  zero is a NaN, and every comparison with a NaN is false. Any other pattern stands
  for the number \<open>f * 2 ^ (1 - bias - p)\<close> when \<open>e = 0\<close> and for
  \<open>(2 ^ p + f) * 2 ^ (e - bias - p)\<close> otherwise, negated when the sign bit is set;
  the formula places an infinity (all bits of \<open>e\<close> set, \<open>f = 0\<close>) beyond every
  finite number. \<open>ieee_scaled p m\<close> is that number without its sign, multiplied by
  the constant \<open>2 ^ (bias + p - 1)\<close>, which makes it a natural number and changes
  no comparison.
\<close>

definition ieee_scaled :: "nat \<Rightarrow> nat \<Rightarrow> nat" where
  "ieee_scaled p m =
     (if m div 2 ^ p = 0 then m mod 2 ^ p else (2 ^ p + m mod 2 ^ p) * 2 ^ (m div 2 ^ p - 1))"

definition float8_magnitude :: "64 word \<Rightarrow> nat" where
  "float8_magnitude w = unat (w AND 0x7FFFFFFFFFFFFFFF)"

definition float8_isnan :: "64 word \<Rightarrow> bool" where
  "float8_isnan w \<longleftrightarrow>
     float8_magnitude w div 2 ^ 52 = 2047 \<and> float8_magnitude w mod 2 ^ 52 \<noteq> 0"

definition float8_scaled :: "64 word \<Rightarrow> int" where
  "float8_scaled w =
     (if bit w 63 then - int (ieee_scaled 52 (float8_magnitude w))
      else int (ieee_scaled 52 (float8_magnitude w)))"

definition float8_le :: "64 word \<Rightarrow> 64 word \<Rightarrow> bool" where
  "float8_le a b \<longleftrightarrow> \<not> float8_isnan a \<and> \<not> float8_isnan b \<and> float8_scaled a \<le> float8_scaled b"

definition float4_magnitude :: "32 word \<Rightarrow> nat" where
  "float4_magnitude w = unat (w AND 0x7FFFFFFF)"

definition float4_isnan :: "32 word \<Rightarrow> bool" where
  "float4_isnan w \<longleftrightarrow>
     float4_magnitude w div 2 ^ 23 = 255 \<and> float4_magnitude w mod 2 ^ 23 \<noteq> 0"

definition float4_scaled :: "32 word \<Rightarrow> int" where
  "float4_scaled w =
     (if bit w 31 then - int (ieee_scaled 23 (float4_magnitude w))
      else int (ieee_scaled 23 (float4_magnitude w)))"

definition float4_le :: "32 word \<Rightarrow> 32 word \<Rightarrow> bool" where
  "float4_le a b \<longleftrightarrow> \<not> float4_isnan a \<and> \<not> float4_isnan b \<and> float4_scaled a \<le> float4_scaled b"

text \<open>
  \<^verbatim>\<open>strcmp\<close> of the C library on the bytes of two C strings: the sign of the
  difference of the first two bytes that differ, read as \<^verbatim>\<open>unsigned char\<close>; a string
  that ends first is the smaller one.
\<close>

fun strcmp :: "string \<Rightarrow> string \<Rightarrow> int" where
  "strcmp [] [] = 0"
| "strcmp [] (b # t) = - 1"
| "strcmp (a # s) [] = 1"
| "strcmp (a # s) (b # t) =
     (if a = b then strcmp s t
      else if (of_char a :: nat) < of_char b then - 1 else 1)"

subsection \<open>The state\<close>

text \<open>
  \<^verbatim>\<open>struct SortMemoryState\<close>: \<open>vals\<close> is the list behind the head pointer,
  \<open>num_vals\<close> the C \<^verbatim>\<open>int\<close> counter: 32 bits, read as two's complement by
  \<open>sint\<close>, and \<^verbatim>\<open>num_vals++\<close> wraps around as under the \<^verbatim>\<open>-fwrapv\<close> of a
  PostgreSQL build.
\<close>

record SortMemoryState =
  vals :: "Datum list"
  num_vals :: "32 word"

datatype failure = Elog_ERROR string | Null_Dereference

subsection \<open>Insertion into the sorted list\<close>

text \<open>
  The six routines \<^verbatim>\<open>int8_cmp\<close>, \<^verbatim>\<open>int4_cmp\<close>, \<^verbatim>\<open>int2_cmp\<close>, \<^verbatim>\<open>float8_cmp\<close>,
  \<^verbatim>\<open>float4_cmp\<close> and \<^verbatim>\<open>string_cmp\<close> have the same body but for the line that reads
  \<^verbatim>\<open>currval\<close> and the test \<^verbatim>\<open>currval <= newval\<close>; \<open>cmp_loop\<close> is that body with the
  test as its first argument. \<open>prev\<close> is the part of the list before the cursor
  \<^verbatim>\<open>sort_vals\<close> (empty exactly when the cursor is the head), the last argument is the
  list from the cursor on.
  \<^item> The cursor is \<^verbatim>\<open>NULL\<close> when the loop is entered: the head is returned as it is.
  \<^item> \<^verbatim>\<open>currval <= newval\<close>: the cursor moves on; if it has become \<^verbatim>\<open>NULL\<close> the new
    node is linked behind the last node.
  \<^item> Otherwise the new node is linked in front of the cursor, as the new head when
    the cursor is the head.
\<close>

fun cmp_loop :: "(Datum \<Rightarrow> bool) \<Rightarrow> Datum \<Rightarrow> Datum list \<Rightarrow> Datum list \<Rightarrow> Datum list" where
  "cmp_loop le_newval new_val_node prev [] = prev"
| "cmp_loop le_newval new_val_node prev (cur # rest) =
     (if le_newval cur then
        (if rest = [] then prev @ [cur, new_val_node]
         else cmp_loop le_newval new_val_node (prev @ [cur]) rest)
      else prev @ new_val_node # cur # rest)"

definition int8_cmp :: "64 word \<Rightarrow> Datum \<Rightarrow> Datum list \<Rightarrow> Datum list" where
  "int8_cmp newval new_val_node sort_vals_head =
     cmp_loop (\<lambda>cur. DatumGetInt64 cur \<le>s newval) new_val_node [] sort_vals_head"

definition int4_cmp :: "32 word \<Rightarrow> Datum \<Rightarrow> Datum list \<Rightarrow> Datum list" where
  "int4_cmp newval new_val_node sort_vals_head =
     cmp_loop (\<lambda>cur. DatumGetInt32 cur \<le>s newval) new_val_node [] sort_vals_head"

definition int2_cmp :: "16 word \<Rightarrow> Datum \<Rightarrow> Datum list \<Rightarrow> Datum list" where
  "int2_cmp newval new_val_node sort_vals_head =
     cmp_loop (\<lambda>cur. DatumGetInt16 cur \<le>s newval) new_val_node [] sort_vals_head"

definition float8_cmp :: "64 word \<Rightarrow> Datum \<Rightarrow> Datum list \<Rightarrow> Datum list" where
  "float8_cmp newval new_val_node sort_vals_head =
     cmp_loop (\<lambda>cur. float8_le (DatumGetFloat8 cur) newval) new_val_node [] sort_vals_head"

definition float4_cmp :: "32 word \<Rightarrow> Datum \<Rightarrow> Datum list \<Rightarrow> Datum list" where
  "float4_cmp newval new_val_node sort_vals_head =
     cmp_loop (\<lambda>cur. float4_le (DatumGetFloat4 cur) newval) new_val_node [] sort_vals_head"

definition string_cmp ::
  "(Datum \<Rightarrow> string) \<Rightarrow> string \<Rightarrow> Datum \<Rightarrow> Datum list \<Rightarrow> Datum list" where
  "string_cmp txt newval new_val_node sort_vals_head =
     cmp_loop (\<lambda>cur. strcmp (txt cur) newval \<le> 0) new_val_node [] sort_vals_head"

subsection \<open>The transition function\<close>

text \<open>
  \<open>arg0\<close> is the state of the previous call (\<open>None\<close> for SQL NULL, as on the first
  call of a group), \<open>arg1\<close> the value of the row (\<open>None\<close> for SQL NULL). The float
  of \<^verbatim>\<open>case FLOAT4OID\<close> is stored in a \<^verbatim>\<open>double\<close> variable and converted back at the
  call of \<^verbatim>\<open>float4_cmp\<close>; both conversions keep every number and keep a NaN a NaN,
  so the routine receives the float of the datum. A type identifier that the switch
  does not name falls through it: nothing is linked, and the two statements after
  the switch are executed all the same.
\<close>

definition median_transfn ::
  "(Datum \<Rightarrow> string) \<Rightarrow> bool \<Rightarrow> Oid \<Rightarrow> SortMemoryState option \<Rightarrow> Datum option
     \<Rightarrow> failure + SortMemoryState" where
  "median_transfn txt agg argtype arg0 arg1 =
     (if \<not> agg then Inl (Elog_ERROR ''median_transfn called in non-aggregate context'')
      else
        let state = (case arg0 of
                       Some s \<Rightarrow> s
                     | None \<Rightarrow> \<lparr>vals = [], num_vals = 0\<rparr>);
            sort_vals_head = vals state
        in case arg1 of
             None \<Rightarrow> Inr state
           | Some d \<Rightarrow>
               if sort_vals_head = [] then Inr (state\<lparr>num_vals := 1, vals := [d]\<rparr>)
               else
                 let new_val_node = d;
                     sort_vals_head =
                       (if argtype = TIMESTAMPTZOID \<or> argtype = INT8OID then
                          int8_cmp (DatumGetInt64 d) new_val_node sort_vals_head
                        else if argtype = INT4OID then
                          int4_cmp (DatumGetInt32 d) new_val_node sort_vals_head
                        else if argtype = INT2OID then
                          int2_cmp (DatumGetInt16 d) new_val_node sort_vals_head
                        else if argtype = FLOAT4OID then
                          float4_cmp (DatumGetFloat4 d) new_val_node sort_vals_head
                        else if argtype = FLOAT8OID then
                          float8_cmp (DatumGetFloat8 d) new_val_node sort_vals_head
                        else if argtype = TEXTOID then
                          string_cmp txt (txt d) new_val_node sort_vals_head
                        else sort_vals_head)
                 in Inr (state\<lparr>vals := sort_vals_head, num_vals := num_vals state + 1\<rparr>))"

subsection \<open>The final function\<close>

text \<open>
  The loop \<^verbatim>\<open>for(i = 0; i < median_index; i++) sort_vals = sort_vals->next\<close>: each
  round reads the \<^verbatim>\<open>next\<close> field of the cursor, which fails when the cursor is
  \<^verbatim>\<open>NULL\<close>.
\<close>

fun follow_next :: "nat \<Rightarrow> Datum list \<Rightarrow> failure + Datum list" where
  "follow_next 0 sort_vals = Inr sort_vals"
| "follow_next (Suc i) [] = Inl Null_Dereference"
| "follow_next (Suc i) (v # rest) = follow_next i rest"

text \<open>
  \<^verbatim>\<open>median_index = (int) (state->num_vals/2)\<close> is the division of C, which
  truncates towards zero; the loop runs \<open>median_index\<close> times, and not at all when
  that is negative. The result \<open>None\<close> is SQL NULL (\<^verbatim>\<open>PG_RETURN_NULL\<close>).
\<close>

definition median_finalfn :: "bool \<Rightarrow> SortMemoryState option \<Rightarrow> failure + Datum option" where
  "median_finalfn agg arg0 =
     (if \<not> agg then Inl (Elog_ERROR ''median_finalfn called in non-aggregate context'')
      else case arg0 of
             None \<Rightarrow> Inr None
           | Some state \<Rightarrow>
               (let median_index = sint (num_vals state) sdiv 2
                in case follow_next (nat median_index) (vals state) of
                     Inl e \<Rightarrow> Inl e
                   | Inr [] \<Rightarrow> Inl Null_Dereference
                   | Inr (v # rest) \<Rightarrow> Inr (Some v)))"

subsection \<open>One aggregation\<close>

text \<open>
  The host calls the transition function once per row of a group, in row order,
  handing each call the state the previous one returned and SQL NULL to the first;
  then it calls the final function once with the last state.
\<close>

fun transfn_rows ::
  "(Datum \<Rightarrow> string) \<Rightarrow> Oid \<Rightarrow> SortMemoryState option \<Rightarrow> Datum option list
     \<Rightarrow> failure + SortMemoryState option" where
  "transfn_rows txt argtype state [] = Inr state"
| "transfn_rows txt argtype state (row # rows) =
     (case median_transfn txt True argtype state row of
        Inl e \<Rightarrow> Inl e
      | Inr state' \<Rightarrow> transfn_rows txt argtype (Some state') rows)"

definition median :: "(Datum \<Rightarrow> string) \<Rightarrow> Oid \<Rightarrow> Datum option list \<Rightarrow> failure + Datum option" where
  "median txt argtype rows =
     (case transfn_rows txt argtype None rows of
        Inl e \<Rightarrow> Inl e
      | Inr state \<Rightarrow> median_finalfn True state)"

subsection \<open>Notions of the specification\<close>

text \<open>The kinds the switch of the transition function names.\<close>

definition supported :: "Oid \<Rightarrow> bool" where
  "supported argtype \<longleftrightarrow>
     argtype = TIMESTAMPTZOID \<or> argtype = INT8OID \<or> argtype = INT4OID \<or> argtype = INT2OID \<or>
     argtype = FLOAT4OID \<or> argtype = FLOAT8OID \<or> argtype = TEXTOID"

text \<open>
  The comparison relation of a kind: the test \<^verbatim>\<open>currval <= newval\<close> of the routine the
  switch calls for it, on two datums.
\<close>

definition kind_le :: "(Datum \<Rightarrow> string) \<Rightarrow> Oid \<Rightarrow> Datum \<Rightarrow> Datum \<Rightarrow> bool" where
  "kind_le txt argtype a b =
     (if argtype = TIMESTAMPTZOID \<or> argtype = INT8OID then DatumGetInt64 a \<le>s DatumGetInt64 b
      else if argtype = INT4OID then DatumGetInt32 a \<le>s DatumGetInt32 b
      else if argtype = INT2OID then DatumGetInt16 a \<le>s DatumGetInt16 b
      else if argtype = FLOAT4OID then float4_le (DatumGetFloat4 a) (DatumGetFloat4 b)
      else if argtype = FLOAT8OID then float8_le (DatumGetFloat8 a) (DatumGetFloat8 b)
      else if argtype = TEXTOID then strcmp (txt a) (txt b) \<le> 0
      else False)"

text \<open>Two datums are tied when each is at most the other.\<close>

definition kind_eq :: "(Datum \<Rightarrow> string) \<Rightarrow> Oid \<Rightarrow> Datum \<Rightarrow> Datum \<Rightarrow> bool" where
  "kind_eq txt argtype a b \<longleftrightarrow> kind_le txt argtype a b \<and> kind_le txt argtype b a"

definition kind_less :: "(Datum \<Rightarrow> string) \<Rightarrow> Oid \<Rightarrow> Datum \<Rightarrow> Datum \<Rightarrow> bool" where
  "kind_less txt argtype a b \<longleftrightarrow> kind_le txt argtype a b \<and> \<not> kind_le txt argtype b a"

text \<open>A datum of a float kind that holds a NaN.\<close>

definition is_nan :: "Oid \<Rightarrow> Datum \<Rightarrow> bool" where
  "is_nan argtype d \<longleftrightarrow>
     argtype = FLOAT4OID \<and> float4_isnan (DatumGetFloat4 d) \<or>
     argtype = FLOAT8OID \<and> float8_isnan (DatumGetFloat8 d)"

fun has_nan :: "Oid \<Rightarrow> Datum option list \<Rightarrow> bool" where
  "has_nan argtype [] = False"
| "has_nan argtype (None # rows) = has_nan argtype rows"
| "has_nan argtype (Some d # rows) = (is_nan argtype d \<or> has_nan argtype rows)"

text \<open>
  A float pattern read as sign and magnitude. The order of the numbers is the
  order of these integers (\<open>float8_le_ord\<close> and \<open>float4_le_ord\<close> below).
\<close>

definition float8_ord :: "64 word \<Rightarrow> int" where
  "float8_ord w = (if bit w 63 then - int (float8_magnitude w) else int (float8_magnitude w))"

definition float4_ord :: "32 word \<Rightarrow> int" where
  "float4_ord w = (if bit w 31 then - int (float4_magnitude w) else int (float4_magnitude w))"

text \<open>
  A sort key for each supported kind, in one linearly ordered type: a number is
  the list of one integer, a text the list of its bytes. Away from NaN the
  comparison of a kind is the order of the keys (\<open>kind_le_key\<close> below).
\<close>

definition kind_key :: "(Datum \<Rightarrow> string) \<Rightarrow> Oid \<Rightarrow> Datum \<Rightarrow> int list" where
  "kind_key txt argtype d =
     (if argtype = TIMESTAMPTZOID \<or> argtype = INT8OID then [sint (DatumGetInt64 d)]
      else if argtype = INT4OID then [sint (DatumGetInt32 d)]
      else if argtype = INT2OID then [sint (DatumGetInt16 d)]
      else if argtype = FLOAT4OID then [float4_ord (DatumGetFloat4 d)]
      else if argtype = FLOAT8OID then [float8_ord (DatumGetFloat8 d)]
      else map (\<lambda>c. int (of_char c)) (txt d))"

text \<open>The values of the rows that are not SQL NULL, in row order.\<close>

fun accepted :: "Datum option list \<Rightarrow> Datum list" where
  "accepted [] = []"
| "accepted (None # rows) = accepted rows"
| "accepted (Some d # rows) = d # accepted rows"

text \<open>The sequence of a state; no state holds nothing.\<close>

definition ordered_values :: "SortMemoryState option \<Rightarrow> Datum list" where
  "ordered_values state = (case state of None \<Rightarrow> [] | Some s \<Rightarrow> vals s)"

text \<open>
  What one call of a \<^verbatim>\<open>_cmp\<close> routine does to a list that is not empty, as a
  function of the comparison: the new value goes behind the longest initial part
  whose members are all at most the new value.
\<close>

definition insert_after :: "(Datum \<Rightarrow> Datum \<Rightarrow> bool) \<Rightarrow> Datum \<Rightarrow> Datum list \<Rightarrow> Datum list" where
  "insert_after le v xs = takeWhile (\<lambda>c. le c v) xs @ v # dropWhile (\<lambda>c. le c v) xs"

text \<open>A text memory with the empty string behind every pointer, for runs on numbers.\<close>

definition no_text :: "Datum \<Rightarrow> string" where
  "no_text d = []"

section \<open>Basic facts\<close>

lemmas Oid_defs = TIMESTAMPTZOID_def INT8OID_def INT4OID_def INT2OID_def FLOAT4OID_def
  FLOAT8OID_def TEXTOID_def

subsection \<open>One call of the transition function\<close>

text \<open>
  The loop of the \<^verbatim>\<open>_cmp\<close> routines on a list that is not empty, and the call of
  the transition function that runs it.
\<close>

lemma cmp_loop_eq:
  "xs \<noteq> [] \<Longrightarrow> cmp_loop le v prev xs = prev @ takeWhile le xs @ v # dropWhile le xs"
  by (induction xs arbitrary: prev) auto

lemma transfn_insert:
  "supported argtype \<Longrightarrow> vals s \<noteq> [] \<Longrightarrow>
   median_transfn txt True argtype (Some s) (Some d) =
     Inr (s\<lparr>vals := takeWhile (\<lambda>c. kind_le txt argtype c d) (vals s) @ d #
                     dropWhile (\<lambda>c. kind_le txt argtype c d) (vals s),
            num_vals := num_vals s + 1\<rparr>)"
  unfolding supported_def
  by (elim disjE)
    (simp_all add: median_transfn_def kind_le_def Oid_defs cmp_loop_eq Let_def
      int8_cmp_def int4_cmp_def int2_cmp_def float4_cmp_def float8_cmp_def string_cmp_def)

lemma transfn_first:
  "median_transfn txt True argtype None (Some d) = Inr \<lparr>vals = [d], num_vals = 1\<rparr>"
  by (simp add: median_transfn_def)

lemma transfn_null:
  "median_transfn txt True argtype arg0 None =
     Inr (case arg0 of Some s \<Rightarrow> s | None \<Rightarrow> \<lparr>vals = [], num_vals = 0\<rparr>)"
  by (simp add: median_transfn_def)

lemma length_insert_after [simp]: "length (insert_after le v xs) = Suc (length xs)"
  by (induction xs) (auto simp: insert_after_def)

lemma set_insert_after [simp]: "set (insert_after le v xs) = insert v (set xs)"
  by (induction xs) (auto simp: insert_after_def)

lemma transfn_insert_after:
  "supported argtype \<Longrightarrow>
   median_transfn txt True argtype (Some \<lparr>vals = xs, num_vals = of_nat (length xs)\<rparr>) (Some d) =
     Inr \<lparr>vals = insert_after (kind_le txt argtype) d xs, num_vals = of_nat (Suc (length xs))\<rparr>"
proof (cases "xs = []")
  case True
  then show ?thesis
    by (simp add: median_transfn_def insert_after_def)
next
  case False
  assume "supported argtype"
  with False show ?thesis
    by (simp add: transfn_insert insert_after_def)
qed

lemma transfn_on_rows_state:
  assumes "supported argtype"
  shows "\<exists>st'. median_transfn txt True argtype st (Some v) = Inr st' \<and>
           vals st' = insert_after (kind_le txt argtype) v (ordered_values st)"
proof (cases st)
  case None
  then show ?thesis
    by (simp add: transfn_first ordered_values_def insert_after_def)
next
  case (Some s)
  show ?thesis
  proof (cases "vals s = []")
    case True
    with Some show ?thesis
      by (simp add: median_transfn_def ordered_values_def insert_after_def)
  next
    case False
    with Some assms show ?thesis
      by (simp add: transfn_insert ordered_values_def insert_after_def)
  qed
qed

lemma transfn_unsupported:
  assumes "\<not> supported argtype" and "vals s \<noteq> []"
  shows "median_transfn txt True argtype (Some s) (Some d) = Inr (s\<lparr>num_vals := num_vals s + 1\<rparr>)"
  using assms by (simp add: median_transfn_def supported_def)

subsection \<open>The rows of a group\<close>

text \<open>
  Under a supported kind the state after the rows holds the accepted values,
  inserted one after the other, and counts them.
\<close>

lemma length_insert_all [simp]:
  "length (foldl (\<lambda>ys v. insert_after le v ys) xs vs) = length xs + length vs"
  by (induction vs arbitrary: xs) simp_all

lemma set_insert_all [simp]:
  "set (foldl (\<lambda>ys v. insert_after le v ys) xs vs) = set xs \<union> set vs"
  by (induction vs arbitrary: xs) auto

lemma mset_insert_after [simp]: "mset (insert_after le v xs) = add_mset v (mset xs)"
  by (induction xs) (auto simp: insert_after_def)

lemma mset_insert_all [simp]:
  "mset (foldl (\<lambda>ys v. insert_after le v ys) xs vs) = mset xs + mset vs"
  by (induction vs arbitrary: xs) simp_all

lemma accepted_replicate [simp]: "accepted (replicate n (Some d)) = replicate n d"
  by (induction n) simp_all

lemma accepted_Nil_rows: "accepted rows \<noteq> [] \<Longrightarrow> rows \<noteq> []"
  by auto

lemma transfn_rows_Some:
  "supported argtype \<Longrightarrow>
   transfn_rows txt argtype (Some \<lparr>vals = xs, num_vals = of_nat (length xs)\<rparr>) rows =
     Inr (Some \<lparr>vals = foldl (\<lambda>ys v. insert_after (kind_le txt argtype) v ys) xs (accepted rows),
               num_vals = of_nat (length xs + length (accepted rows))\<rparr>)"
proof (induction rows arbitrary: xs)
  case Nil
  then show ?case by simp
next
  case (Cons row rows)
  show ?case
  proof (cases row)
    case None
    with Cons show ?thesis by (simp add: transfn_null)
  next
    case (Some d)
    let ?ys = "insert_after (kind_le txt argtype) d xs"
    have "transfn_rows txt argtype (Some \<lparr>vals = xs, num_vals = of_nat (length xs)\<rparr>) (row # rows) =
          transfn_rows txt argtype (Some \<lparr>vals = ?ys, num_vals = of_nat (length ?ys)\<rparr>) rows"
      using Some Cons.prems by (simp add: transfn_insert_after)
    also have "\<dots> = Inr (Some \<lparr>vals = foldl (\<lambda>ys v. insert_after (kind_le txt argtype) v ys) ?ys (accepted rows),
               num_vals = of_nat (length ?ys + length (accepted rows))\<rparr>)"
      by (rule Cons.IH [OF Cons.prems])
    finally show ?thesis
      using Some by simp
  qed
qed

lemma transfn_rows_None:
  "supported argtype \<Longrightarrow>
   transfn_rows txt argtype None rows =
     Inr (if rows = [] then None
          else Some \<lparr>vals = foldl (\<lambda>ys v. insert_after (kind_le txt argtype) v ys) [] (accepted rows),
                     num_vals = of_nat (length (accepted rows))\<rparr>)"
proof (cases rows)
  case Nil
  then show ?thesis by simp
next
  case (Cons row rest)
  assume sup: "supported argtype"
  show ?thesis
  proof (cases row)
    case None
    with Cons sup show ?thesis
      using transfn_rows_Some [of argtype "txt" "[]" rest] by (simp add: transfn_null)
  next
    case (Some d)
    with Cons sup show ?thesis
      using transfn_rows_Some [of argtype "txt" "[d]" rest]
      by (simp add: transfn_first insert_after_def)
  qed
qed

lemma rows_state:
  assumes "supported argtype"
  shows "\<exists>st. transfn_rows txt argtype None rows = Inr st \<and>
           ordered_values st =
             foldl (\<lambda>ys v. insert_after (kind_le txt argtype) v ys) [] (accepted rows)"
  using assms by (cases "rows = []") (simp_all add: transfn_rows_None ordered_values_def)

lemma transfn_rows_unsupported_Some:
  assumes "\<not> supported argtype"
  shows "transfn_rows txt argtype (Some \<lparr>vals = x # xs, num_vals = k\<rparr>) rows =
           Inr (Some \<lparr>vals = x # xs, num_vals = k + of_nat (length (accepted rows))\<rparr>)"
proof (induction rows arbitrary: k)
  case Nil
  then show ?case by simp
next
  case (Cons row rows)
  show ?case
  proof (cases row)
    case None
    then show ?thesis by (simp add: transfn_null Cons.IH)
  next
    case (Some d)
    then show ?thesis
      using assms by (simp add: transfn_unsupported Cons.IH)
  qed
qed

subsection \<open>The order of the floats\<close>

text \<open>
  The scaled number grows strictly with the magnitude, so two patterns that are
  not NaN compare as their readings as sign and magnitude do; and the NaNs are the
  patterns whose magnitude is beyond that of the infinities.
\<close>

lemma ieee_scaled_less:
  assumes "m < n"
  shows "ieee_scaled p m < ieee_scaled p n"
proof -
  let ?e = "m div 2 ^ p" and ?f = "m mod 2 ^ p" and ?e' = "n div 2 ^ p" and ?f' = "n mod 2 ^ p"
  have f: "?f < 2 ^ p" and f': "?f' < 2 ^ p" by simp_all
  have ee: "?e \<le> ?e'" using assms by (simp add: div_le_mono)
  show ?thesis
  proof (cases "?e = ?e'")
    case True
    have "?e * 2 ^ p + ?f = m"
      by (rule div_mult_mod_eq)
    moreover have "?e' * 2 ^ p + ?f' = n"
      by (rule div_mult_mod_eq)
    ultimately have "?e * 2 ^ p + ?f < ?e * 2 ^ p + ?f'"
      using assms True by simp
    then have "?f < ?f'"
      by (rule add_less_imp_less_left)
    with True show ?thesis by (simp add: ieee_scaled_def)
  next
    case False
    with ee have lt: "?e < ?e'" by simp
    then have pos: "?e' \<noteq> 0" by simp
    have up: "ieee_scaled p m < 2 ^ p * 2 ^ ?e"
    proof (cases "?e = 0")
      case True
      with f show ?thesis by (simp add: ieee_scaled_def)
    next
      case False
      then obtain k where k: "?e = Suc k" by (cases ?e) simp_all
      have "(2 ^ p + ?f) * 2 ^ k < (2 ^ p + 2 ^ p) * 2 ^ k"
        using f by simp
      then show ?thesis using k by (simp add: ieee_scaled_def algebra_simps)
    qed
    have "?e \<le> ?e' - 1" using lt by simp
    then have "(2::nat) ^ ?e \<le> 2 ^ (?e' - 1)" by (simp add: power_increasing)
    then have "2 ^ p * 2 ^ ?e \<le> (2 ^ p + ?f') * (2::nat) ^ (?e' - 1)"
      by (meson le_add1 mult_le_mono)
    also have "\<dots> = ieee_scaled p n" using pos by (simp add: ieee_scaled_def)
    finally show ?thesis using up by simp
  qed
qed

lemma ieee_scaled_le_iff: "ieee_scaled p m \<le> ieee_scaled p n \<longleftrightarrow> m \<le> n"
  by (metis ieee_scaled_less leD leI le_eq_less_or_eq)

lemma ieee_scaled_0 [simp]: "ieee_scaled p 0 = 0"
  by (simp add: ieee_scaled_def)

lemma ieee_scaled_eq_0_iff: "ieee_scaled p m = 0 \<longleftrightarrow> m = 0"
  by (metis ieee_scaled_0 ieee_scaled_less less_nat_zero_code neq0_conv)

lemma signed_scaled_le_iff:
  "(if s then - int (ieee_scaled p m) else int (ieee_scaled p m)) \<le>
     (if t then - int (ieee_scaled p n) else int (ieee_scaled p n)) \<longleftrightarrow>
   (if s then - int m else int m) \<le> (if t then - int n else int n)"
proof -
  have "int (ieee_scaled p m) \<le> - int (ieee_scaled p n) \<longleftrightarrow> int m \<le> - int n"
    using ieee_scaled_eq_0_iff [of p m] ieee_scaled_eq_0_iff [of p n] by auto
  then show ?thesis
    by (auto simp: ieee_scaled_le_iff)
qed

lemma nan_magnitude:
  fixes m :: nat
  assumes "m < (E + 1) * K"
  shows "m div K = E \<and> m mod K \<noteq> 0 \<longleftrightarrow> E * K < m"
proof
  assume "m div K = E \<and> m mod K \<noteq> 0"
  then have "E * K + m mod K = m" "0 < m mod K"
    using div_mult_mod_eq [of m K] by simp_all
  then show "E * K < m" by linarith
next
  assume less: "E * K < m"
  then have "E * K \<le> m" by simp
  with assms have q: "m div K = E"
    by (intro div_nat_eqI) (simp_all add: mult.commute)
  then have "E * K + m mod K = m"
    using div_mult_mod_eq [of m K] by simp
  with less have "m mod K \<noteq> 0" by auto
  with q show "m div K = E \<and> m mod K \<noteq> 0" by simp
qed

lemma float8_magnitude_less: "float8_magnitude w < 2 ^ 63"
proof -
  have "w AND 0x7FFFFFFFFFFFFFFF \<le> 0x7FFFFFFFFFFFFFFF"
    by (rule word_and_le1)
  then have "unat (w AND 0x7FFFFFFFFFFFFFFF) \<le> unat (0x7FFFFFFFFFFFFFFF :: 64 word)"
    by (simp only: word_le_nat_alt)
  then show ?thesis by (simp add: float8_magnitude_def)
qed

lemma float8_isnan_magnitude: "float8_isnan w \<longleftrightarrow> 2047 * 2 ^ 52 < float8_magnitude w"
  unfolding float8_isnan_def
  using float8_magnitude_less [of w] by (intro nan_magnitude) simp

lemma float8_le_ord:
  "float8_le a b \<longleftrightarrow> \<not> float8_isnan a \<and> \<not> float8_isnan b \<and> float8_ord a \<le> float8_ord b"
  by (simp only: float8_le_def float8_scaled_def float8_ord_def signed_scaled_le_iff)

lemma float4_magnitude_less: "float4_magnitude w < 2 ^ 31"
proof -
  have "w AND 0x7FFFFFFF \<le> 0x7FFFFFFF"
    by (rule word_and_le1)
  then have "unat (w AND 0x7FFFFFFF) \<le> unat (0x7FFFFFFF :: 32 word)"
    by (simp only: word_le_nat_alt)
  then show ?thesis by (simp add: float4_magnitude_def)
qed

lemma float4_isnan_magnitude: "float4_isnan w \<longleftrightarrow> 255 * 2 ^ 23 < float4_magnitude w"
  unfolding float4_isnan_def
  using float4_magnitude_less [of w] by (intro nan_magnitude) simp

lemma float4_le_ord:
  "float4_le a b \<longleftrightarrow> \<not> float4_isnan a \<and> \<not> float4_isnan b \<and> float4_ord a \<le> float4_ord b"
  by (simp only: float4_le_def float4_scaled_def float4_ord_def signed_scaled_le_iff)

text \<open>
  The numbers 1, 3, -1/2 and the least positive \<^verbatim>\<open>double\<close>, times \<open>2 ^ 1074\<close>; the
  numbers 1 and -3 as \<^verbatim>\<open>float\<close>, times \<open>2 ^ 149\<close>.
\<close>

lemma float_scaled_examples:
  "float8_scaled 0x3FF0000000000000 = 2 ^ 1074"
  "float8_scaled 0x4008000000000000 = 3 * 2 ^ 1074"
  "float8_scaled 0xBFE0000000000000 = - (2 ^ 1073)"
  "float8_scaled 1 = 1"
  "float4_scaled 0x3F800000 = 2 ^ 149"
  "float4_scaled 0xC0400000 = - (3 * 2 ^ 149)"
  by (simp_all add: float8_scaled_def float8_magnitude_def float4_scaled_def
      float4_magnitude_def ieee_scaled_def)

subsection \<open>The comparisons as orders of keys\<close>

text \<open>
  \<^verbatim>\<open>strcmp\<close> orders strings as the lists of their bytes are ordered, which is
  the lexicographic order \<open>lexord\<close> of the library.
\<close>

lemma strcmp_le_iff:
  "strcmp a b \<le> 0 \<longleftrightarrow> map (\<lambda>c. int (of_char c)) a \<le> map (\<lambda>c. int (of_char c)) b"
  by (induction a b rule: strcmp.induct) auto

lemma strcmp_le_lexord:
  "strcmp s t \<le> 0 \<longleftrightarrow> s = t \<or> (s, t) \<in> lexord {(x, y). (of_char x :: nat) < of_char y}"
  by (induction s t rule: strcmp.induct) auto

lemma kind_le_key:
  "supported argtype \<Longrightarrow> \<not> is_nan argtype a \<Longrightarrow> \<not> is_nan argtype b \<Longrightarrow>
   kind_le txt argtype a b \<longleftrightarrow> kind_key txt argtype a \<le> kind_key txt argtype b"
  unfolding supported_def
  by (elim disjE)
    (auto simp add: kind_le_def kind_key_def is_nan_def Oid_defs word_sle_eq
      float4_le_ord float8_le_ord strcmp_le_iff)

lemma kind_less_key:
  "supported argtype \<Longrightarrow> \<not> is_nan argtype a \<Longrightarrow> \<not> is_nan argtype b \<Longrightarrow>
   kind_less txt argtype a b \<longleftrightarrow> kind_key txt argtype a < kind_key txt argtype b"
  by (auto simp: kind_less_def kind_le_key)

lemma kind_eq_key:
  "supported argtype \<Longrightarrow> \<not> is_nan argtype a \<Longrightarrow> \<not> is_nan argtype b \<Longrightarrow>
   kind_eq txt argtype a b \<longleftrightarrow> kind_key txt argtype a = kind_key txt argtype b"
  by (auto simp: kind_eq_def kind_le_key)

lemma kind_eq_nan:
  "supported argtype \<Longrightarrow> is_nan argtype k \<Longrightarrow> \<not> kind_eq txt argtype k c"
  by (auto simp: kind_eq_def kind_le_def is_nan_def Oid_defs float4_le_def float8_le_def)

lemma supported_TEXTOID: "supported TEXTOID"
  by (simp add: supported_def)

lemma kind_le_TEXTOID: "kind_le txt TEXTOID a b \<longleftrightarrow> strcmp (txt a) (txt b) \<le> 0"
  by (simp add: kind_le_def Oid_defs)

lemma has_nan_accepted: "has_nan argtype rows \<longleftrightarrow> (\<exists>d\<in>set (accepted rows). is_nan argtype d)"
  by (induction argtype rows rule: has_nan.induct) simp_all

lemma has_nan_take: "\<not> has_nan argtype rows \<Longrightarrow> \<not> has_nan argtype (take n rows)"
proof (induction argtype rows arbitrary: n rule: has_nan.induct)
  case (1 argtype)
  then show ?case by simp
next
  case (2 argtype rows)
  then show ?case by (cases n) simp_all
next
  case (3 argtype d rows)
  then show ?case by (cases n) simp_all
qed

lemma has_nan_append [simp]:
  "has_nan argtype (rows @ rows') \<longleftrightarrow> has_nan argtype rows \<or> has_nan argtype rows'"
  by (induction argtype rows rule: has_nan.induct) simp_all

lemma has_nan_TEXTOID: "\<not> has_nan TEXTOID rows"
  by (induction TEXTOID rows rule: has_nan.induct) (simp_all add: is_nan_def Oid_defs)

subsection \<open>Insertion keeps a list of keys sorted\<close>

lemma sorted_insert_after:
  fixes key :: "Datum \<Rightarrow> 'k::linorder"
  assumes "\<forall>c\<in>set xs. le c v \<longleftrightarrow> key c \<le> key v" and "sorted (map key xs)"
  shows "sorted (map key (insert_after le v xs))"
  using assms
proof (induction xs)
  case Nil
  then show ?case by (simp add: insert_after_def)
next
  case (Cons x xs)
  then have IH: "sorted (map key (insert_after le v xs))" by simp
  show ?case
  proof (cases "le x v")
    case True
    have "set (insert_after le v xs) \<subseteq> insert v (set xs)"
      by (auto simp: insert_after_def dest: set_takeWhileD set_dropWhileD)
    with True Cons.prems IH show ?thesis
      by (auto simp: insert_after_def)
  next
    case False
    with Cons.prems show ?thesis
      by (auto simp: insert_after_def)
  qed
qed

lemma sorted_insert_all:
  assumes "supported argtype"
    and "\<forall>d\<in>set xs \<union> set vs. \<not> is_nan argtype d"
    and "sorted (map (kind_key txt argtype) xs)"
  shows "sorted (map (kind_key txt argtype)
           (foldl (\<lambda>ys v. insert_after (kind_le txt argtype) v ys) xs vs))"
  using assms(2,3)
proof (induction vs arbitrary: xs)
  case Nil
  then show ?case by simp
next
  case (Cons v vs)
  have "\<forall>c\<in>set xs. kind_le txt argtype c v \<longleftrightarrow> kind_key txt argtype c \<le> kind_key txt argtype v"
    using Cons.prems(1) assms(1) by (simp add: kind_le_key)
  then have "sorted (map (kind_key txt argtype) (insert_after (kind_le txt argtype) v xs))"
    using Cons.prems(2) by (rule sorted_insert_after)
  moreover have "\<forall>d\<in>set (insert_after (kind_le txt argtype) v xs) \<union> set vs. \<not> is_nan argtype d"
    using Cons.prems(1) by auto
  ultimately show ?case
    using Cons.IH by simp
qed

lemma sorted_key_kind_le:
  assumes "supported argtype" and "\<forall>d\<in>set xs. \<not> is_nan argtype d"
    and "sorted (map (kind_key txt argtype) xs)"
  shows "sorted_wrt (kind_le txt argtype) xs"
proof -
  have "sorted_wrt (\<lambda>a b. kind_key txt argtype a \<le> kind_key txt argtype b) xs"
    using assms(3) by (simp add: sorted_map)
  moreover have "kind_le txt argtype a b"
    if "a \<in> set xs" "b \<in> set xs" "kind_key txt argtype a \<le> kind_key txt argtype b" for a b
    using that assms(1,2) by (simp add: kind_le_key)
  ultimately show ?thesis
    by (rule sorted_wrt_mono_rel [rotated])
qed

lemma rows_sorted:
  assumes "supported argtype" and "\<not> has_nan argtype rows"
  shows "\<exists>st. transfn_rows txt argtype None rows = Inr st \<and>
           set (ordered_values st) = set (accepted rows) \<and>
           sorted (map (kind_key txt argtype) (ordered_values st)) \<and>
           sorted_wrt (kind_le txt argtype) (ordered_values st)"
proof -
  let ?xs = "foldl (\<lambda>ys v. insert_after (kind_le txt argtype) v ys) [] (accepted rows)"
  obtain st where st: "transfn_rows txt argtype None rows = Inr st" "ordered_values st = ?xs"
    using rows_state [OF assms(1)] by blast
  have nn: "\<forall>d\<in>set [] \<union> set (accepted rows). \<not> is_nan argtype d"
    using assms(2) by (simp add: has_nan_accepted)
  have srt: "sorted (map (kind_key txt argtype) ?xs)"
    using assms(1) nn by (rule sorted_insert_all) simp
  moreover have "\<forall>d\<in>set ?xs. \<not> is_nan argtype d"
    using nn by simp
  ultimately have "sorted_wrt (kind_le txt argtype) ?xs"
    using assms(1) by (intro sorted_key_kind_le)
  with st srt show ?thesis by simp
qed

text \<open>
  A sorted list falls into the members below the new value, the members tied with
  it and the members above it; the new value goes between the last two parts. So
  the members with one key stay in the order of their rows.
\<close>

lemma insert_after_split:
  fixes key :: "Datum \<Rightarrow> 'k::linorder"
  assumes "\<forall>c\<in>set xs. le c v \<longleftrightarrow> key c \<le> key v" and "sorted (map key xs)"
  shows "\<exists>ys es zs. xs = ys @ es @ zs \<and> insert_after le v xs = ys @ es @ v # zs \<and>
           (\<forall>y\<in>set ys. key y < key v) \<and> (\<forall>e\<in>set es. key e = key v) \<and>
           (\<forall>z\<in>set zs. key v < key z)"
  using assms
proof (induction xs)
  case Nil
  have "[] = [] @ [] @ [] \<and> insert_after le v [] = [] @ [] @ v # []"
    by (simp add: insert_after_def)
  then show ?case by (metis empty_iff empty_set)
next
  case (Cons x xs)
  from Cons.prems have ge: "\<forall>c\<in>set xs. key x \<le> key c" and srt: "sorted (map key xs)"
    and le: "\<forall>c\<in>set xs. le c v \<longleftrightarrow> key c \<le> key v" and lex: "le x v \<longleftrightarrow> key x \<le> key v"
    by simp_all
  from Cons.IH [OF le srt] obtain ys es zs where
    split: "xs = ys @ es @ zs" "insert_after le v xs = ys @ es @ v # zs"
    and ys: "\<forall>y\<in>set ys. key y < key v" and es: "\<forall>e\<in>set es. key e = key v"
    and zs: "\<forall>z\<in>set zs. key v < key z"
    by blast
  consider (less) "key x < key v" | (eq) "key x = key v" | (greater) "key v < key x"
    by (metis less_linear)
  then show ?case
  proof cases
    case less
    then have "le x v" using lex by simp
    then have "insert_after le v (x # xs) = x # insert_after le v xs"
      by (simp add: insert_after_def)
    with split have "x # xs = (x # ys) @ es @ zs \<and>
        insert_after le v (x # xs) = (x # ys) @ es @ v # zs" by simp
    moreover have "\<forall>y\<in>set (x # ys). key y < key v" using less ys by simp
    ultimately show ?thesis using es zs by blast
  next
    case eq
    then have "le x v" using lex by simp
    then have ins: "insert_after le v (x # xs) = x # insert_after le v xs"
      by (simp add: insert_after_def)
    have "ys = []"
    proof (rule ccontr)
      assume "ys \<noteq> []"
      then obtain y where "y \<in> set ys" by (cases ys) auto
      then have "key y < key v" "key x \<le> key y" using ys ge split(1) by auto
      with eq show False by simp
    qed
    with split ins have "x # xs = [] @ (x # es) @ zs \<and>
        insert_after le v (x # xs) = [] @ (x # es) @ v # zs" by simp
    moreover have "\<forall>e\<in>set (x # es). key e = key v" using eq es by simp
    ultimately show ?thesis using zs by (metis empty_iff empty_set)
  next
    case greater
    then have "\<not> le x v" using lex by simp
    then have "insert_after le v (x # xs) = v # x # xs"
      by (simp add: insert_after_def)
    then have "x # xs = [] @ [] @ (x # xs) \<and>
        insert_after le v (x # xs) = [] @ [] @ v # (x # xs)" by simp
    moreover have "\<forall>z\<in>set (x # xs). key v < key z" using greater ge by auto
    ultimately show ?thesis by (metis empty_iff empty_set)
  qed
qed

lemma ties_in_row_order:
  assumes "supported argtype" and "\<forall>d\<in>set vs. \<not> is_nan argtype d"
  shows "filter (\<lambda>c. kind_key txt argtype c = K)
           (foldl (\<lambda>ys v. insert_after (kind_le txt argtype) v ys) [] vs) =
         filter (\<lambda>c. kind_key txt argtype c = K) vs"
  using assms(2)
proof (induction vs rule: rev_induct)
  case Nil
  then show ?case by simp
next
  case (snoc v vs)
  let ?xs = "foldl (\<lambda>ys v. insert_after (kind_le txt argtype) v ys) [] vs"
  let ?P = "\<lambda>c. kind_key txt argtype c = K"
  from snoc.prems have nn: "\<forall>d\<in>set [] \<union> set vs. \<not> is_nan argtype d" and nv: "\<not> is_nan argtype v"
    by simp_all
  have IH: "filter ?P ?xs = filter ?P vs"
    using snoc.IH nn by simp
  have srt: "sorted (map (kind_key txt argtype) ?xs)"
    using assms(1) nn by (rule sorted_insert_all) simp
  have "\<forall>c\<in>set ?xs. kind_le txt argtype c v \<longleftrightarrow> kind_key txt argtype c \<le> kind_key txt argtype v"
    using assms(1) nn nv by (simp add: kind_le_key)
  from insert_after_split [where le = "kind_le txt argtype" and key = "kind_key txt argtype"
      and v = v and xs = ?xs, OF this srt] obtain ys es zs where
    split: "?xs = ys @ es @ zs" "insert_after (kind_le txt argtype) v ?xs = ys @ es @ v # zs"
    and zs: "\<forall>z\<in>set zs. kind_key txt argtype v < kind_key txt argtype z"
    by blast
  have "filter ?P (ys @ es @ v # zs) = filter ?P (ys @ es @ zs) @ filter ?P [v]"
  proof (cases "?P v")
    case True
    with zs have "filter ?P zs = []" by (auto simp: filter_empty_conv)
    with True show ?thesis by simp
  next
    case False
    then show ?thesis by simp
  qed
  then have "filter ?P (insert_after (kind_le txt argtype) v ?xs) = filter ?P ?xs @ filter ?P [v]"
    using split by simp
  then show ?case
    using IH by simp
qed

lemma ties_kind_eq:
  assumes "supported argtype" and "\<forall>d\<in>set vs. \<not> is_nan argtype d"
  shows "filter (kind_eq txt argtype k)
           (foldl (\<lambda>ys v. insert_after (kind_le txt argtype) v ys) [] vs) =
         filter (kind_eq txt argtype k) vs"
proof (cases "is_nan argtype k")
  case True
  then show ?thesis
    using assms(1) by (simp add: kind_eq_nan)
next
  case False
  let ?xs = "foldl (\<lambda>ys v. insert_after (kind_le txt argtype) v ys) [] vs"
  have eq: "kind_eq txt argtype k c \<longleftrightarrow> kind_key txt argtype c = kind_key txt argtype k"
    if "c \<in> set vs" for c
    using that assms False by (auto simp: kind_eq_key)
  have "filter (kind_eq txt argtype k) ?xs =
        filter (\<lambda>c. kind_key txt argtype c = kind_key txt argtype k) ?xs"
    by (rule filter_cong) (simp_all add: eq)
  also have "\<dots> = filter (\<lambda>c. kind_key txt argtype c = kind_key txt argtype k) vs"
    using assms by (rule ties_in_row_order)
  also have "\<dots> = filter (kind_eq txt argtype k) vs"
    by (rule filter_cong) (simp_all add: eq)
  finally show ?thesis .
qed

text \<open>
  So the list after the rows is the stable sort of the accepted values by their
  keys.
\<close>

lemma rows_sort_key:
  assumes "supported argtype" and "\<forall>d\<in>set vs. \<not> is_nan argtype d"
  shows "foldl (\<lambda>ys v. insert_after (kind_le txt argtype) v ys) [] vs =
         sort_key (kind_key txt argtype) vs"
proof -
  let ?xs = "foldl (\<lambda>ys v. insert_after (kind_le txt argtype) v ys) [] vs"
  have "mset ?xs = mset vs" by simp
  moreover have "filter (\<lambda>x. kind_key txt argtype k = kind_key txt argtype x) ?xs =
                 filter (\<lambda>x. kind_key txt argtype k = kind_key txt argtype x) vs" for k
    using ties_in_row_order [OF assms, of "txt" "kind_key txt argtype k"]
    by (simp add: eq_commute)
  moreover have "sorted (map (kind_key txt argtype) ?xs)"
    using assms by (intro sorted_insert_all) simp_all
  ultimately show ?thesis
    by (intro properties_for_sort_key [symmetric]) simp_all
qed

subsection \<open>The final function\<close>

lemma follow_next_drop:
  "follow_next n xs = (if n \<le> length xs then Inr (drop n xs) else Inl Null_Dereference)"
  by (induction n xs rule: follow_next.induct) simp_all

lemma finalfn_middle:
  assumes "vals s \<noteq> []" and "sint (num_vals s) = int (length (vals s))"
  shows "median_finalfn True (Some s) = Inr (Some (vals s ! (length (vals s) div 2)))"
proof -
  let ?n = "length (vals s)"
  have idx: "nat (sint (num_vals s) sdiv 2) = ?n div 2"
    using assms(2) by (simp add: signed_divide_int_def sgn_if nat_div_distrib)
  have lt: "?n div 2 < ?n"
    using assms(1) by simp
  then obtain v rest where dr: "drop (?n div 2) (vals s) = v # rest"
    by (cases "drop (?n div 2) (vals s)") simp_all
  then have "v = vals s ! (?n div 2)"
    using lt by (metis hd_drop_conv_nth list.sel(1))
  with dr lt idx show ?thesis
    by (simp add: median_finalfn_def follow_next_drop)
qed

lemma finalfn_short:
  assumes "int (length (vals s)) \<le> sint (num_vals s) sdiv 2"
  shows "median_finalfn True (Some s) = Inl Null_Dereference"
proof (cases "nat (sint (num_vals s) sdiv 2) \<le> length (vals s)")
  case True
  with assms have "nat (sint (num_vals s) sdiv 2) = length (vals s)" by linarith
  then show ?thesis
    by (simp add: median_finalfn_def follow_next_drop)
next
  case False
  then show ?thesis
    by (simp add: median_finalfn_def follow_next_drop)
qed

lemma sint_count:
  assumes "n < 2 ^ 31"
  shows "sint (of_nat n :: 32 word) = int n"
proof -
  have "int n < 2 ^ 31" using assms by (simp add: of_nat_less_numeral_power_cancel_iff)
  then show ?thesis
    by (simp add: signed_of_nat signed_take_bit_int_eq_self)
qed

text \<open>
  The counter after \<open>2 ^ 31\<close> accepted values: the value 0 and then \<open>n\<close> values 1
  of kind \<open>INT4OID\<close>, where \<open>n + 1 = 2 ^ 31\<close>.
\<close>

lemma insert_all_ones:
  assumes "le 0 1" and "le 1 1"
  shows "foldl (\<lambda>ys v. insert_after le v ys) (0 # replicate j 1) (replicate n 1) =
         0 # replicate (j + n) (1 :: Datum)"
proof (induction n arbitrary: j)
  case 0
  then show ?case by simp
next
  case (Suc n)
  have "insert_after le 1 (0 # replicate j 1) = (0 # replicate j 1) @ [1]"
    using assms by (simp add: insert_after_def)
  also have "\<dots> = 0 # replicate (Suc j) 1"
    by (simp add: replicate_append_same)
  finally show ?case
    using Suc.IH [of "Suc j"] by simp
qed

lemma count_wraps:
  assumes "Suc n = 2 ^ 31"
  shows "supported INT4OID \<and>
    transfn_rows no_text INT4OID None (Some 0 # replicate n (Some 1)) =
      Inr (Some \<lparr>vals = 0 # replicate n 1, num_vals = 2147483648\<rparr>) \<and>
    sorted_wrt (kind_le no_text INT4OID) (0 # replicate n 1) \<and>
    length (0 # replicate n (1 :: Datum)) = 2 ^ 31 \<and>
    (0 # replicate n (1 :: Datum)) ! (2 ^ 31 div 2) = 1 \<and>
    median no_text INT4OID (Some 0 # replicate n (Some 1)) = Inr (Some 0)"
proof -
  have sup: "supported INT4OID"
    by (simp add: supported_def)
  have le: "kind_le no_text INT4OID 0 1" "kind_le no_text INT4OID 1 1" "kind_le no_text INT4OID 0 0"
    by (simp_all add: kind_le_def Oid_defs DatumGetInt32_def word_sle_eq)
  have "of_nat (Suc n) = (2147483648 :: 32 word)"
    unfolding assms by simp
  then have run: "transfn_rows no_text INT4OID None (Some 0 # replicate n (Some 1)) =
      Inr (Some \<lparr>vals = 0 # replicate n 1, num_vals = 2147483648\<rparr>)"
    unfolding transfn_rows_None [OF sup]
    using insert_all_ones [where le = "kind_le no_text INT4OID" and j = 0 and n = n, OF le(1,2)]
    by (simp add: insert_after_def)
  have "sorted_wrt (kind_le no_text INT4OID) (replicate k 1)" for k
    using le(2) by (induction k) auto
  then have srt: "sorted_wrt (kind_le no_text INT4OID) (0 # replicate n 1)"
    using le(1) by auto
  have len: "length (0 # replicate n (1 :: Datum)) = 2 ^ 31"
    using assms by simp
  have "(2 :: nat) ^ 31 div 2 - 1 < n"
    using assms by simp
  then have nth: "(0 # replicate n (1 :: Datum)) ! (2 ^ 31 div 2) = 1"
    by (simp add: nth_Cons')
  have "median_finalfn True (Some \<lparr>vals = 0 # replicate n 1, num_vals = 2147483648\<rparr>) =
        Inr (Some 0)"
    by (simp add: median_finalfn_def signed_divide_int_def)
  then have "median no_text INT4OID (Some 0 # replicate n (Some 1)) = Inr (Some 0)"
    using run by (simp add: median_def)
  with sup run srt len nth show ?thesis by blast
qed

text \<open>
  The definitions that evaluate a comparison of two floats given by their bits.
\<close>

lemmas float_eval = kind_le_def kind_eq_def kind_less_def is_nan_def Oid_defs DatumGetFloat4_def
  DatumGetFloat8_def float4_le_ord float8_le_ord float4_isnan_magnitude float8_isnan_magnitude
  float4_ord_def float8_ord_def float4_magnitude_def float8_magnitude_def

section \<open>The middle element\<close>

text \<open>
  Claim C1, amended. From a state whose list has \<open>n \<ge> 1\<close> members and whose
  counter is \<open>n\<close>, the final function returns the member at index \<open>n div 2\<close> of
  the list, counted from 0: it follows \<open>n div 2\<close> links from the head. For rows of
  one supported kind with at least one and fewer than \<open>2 ^ 31\<close> accepted values,
  none of them a NaN, the state after the rows is such a state and its list is the
  sorted sequence of the accepted values: a permutation of them that is
  non-decreasing under the comparison of the kind, namely their stable sort; so the
  result is the member at index \<open>n div 2\<close> of the sorted accepted values. For the
  inputs 5, 1, 3 the result is 3, and for 1, 2, 3, 4 it is 3 as well: the member to
  the right of the middle, not a mean.
\<close>

theorem median_finalfn_middle:
  "(vals s \<noteq> [] \<longrightarrow> sint (num_vals s) = int (length (vals s)) \<longrightarrow>
      median_finalfn True (Some s) = Inr (Some (vals s ! (length (vals s) div 2)))) \<and>
   (supported argtype \<longrightarrow> \<not> has_nan argtype rows \<longrightarrow> accepted rows \<noteq> [] \<longrightarrow>
    length (accepted rows) < 2 ^ 31 \<longrightarrow>
      (\<exists>st. transfn_rows txt argtype None rows = Inr (Some st) \<and>
            mset (vals st) = mset (accepted rows) \<and>
            sorted_wrt (kind_le txt argtype) (vals st) \<and>
            vals st = sort_key (kind_key txt argtype) (accepted rows) \<and>
            sint (num_vals st) = int (length (accepted rows)) \<and>
            median txt argtype rows = Inr (Some (vals st ! (length (accepted rows) div 2))))) \<and>
   (argtype = INT8OID \<or> argtype = INT4OID \<or> argtype = INT2OID \<longrightarrow>
      median txt argtype [Some 5, Some 1, Some 3] = Inr (Some 3) \<and>
      median txt argtype [Some 1, Some 2, Some 3, Some 4] = Inr (Some 3))"
proof (intro conjI impI)
  assume "vals s \<noteq> []" and "sint (num_vals s) = int (length (vals s))"
  then show "median_finalfn True (Some s) = Inr (Some (vals s ! (length (vals s) div 2)))"
    by (rule finalfn_middle)
next
  assume sup: "supported argtype" and nan: "\<not> has_nan argtype rows"
    and ne: "accepted rows \<noteq> []" and small: "length (accepted rows) < 2 ^ 31"
  let ?st = "\<lparr>vals = foldl (\<lambda>ys v. insert_after (kind_le txt argtype) v ys) [] (accepted rows),
              num_vals = of_nat (length (accepted rows))\<rparr>"
  have run: "transfn_rows txt argtype None rows = Inr (Some ?st)"
    using sup accepted_Nil_rows [OF ne] by (simp add: transfn_rows_None)
  have len: "length (vals ?st) = length (accepted rows)"
    by simp
  have nn: "\<forall>d\<in>set (accepted rows). \<not> is_nan argtype d"
    using nan by (simp add: has_nan_accepted)
  have perm: "mset (vals ?st) = mset (accepted rows)"
    by simp
  have key: "vals ?st = sort_key (kind_key txt argtype) (accepted rows)"
    using sup nn by (simp add: rows_sort_key)
  have "sorted (map (kind_key txt argtype) (vals ?st))"
    unfolding key by simp
  moreover have "\<forall>d\<in>set (vals ?st). \<not> is_nan argtype d"
    using nn by simp
  ultimately have srt: "sorted_wrt (kind_le txt argtype) (vals ?st)"
    using sup by (intro sorted_key_kind_le)
  have cnt: "sint (num_vals ?st) = int (length (accepted rows))"
    using small by (simp add: sint_count)
  have "vals ?st \<noteq> []"
    using ne len by (metis length_0_conv)
  then have "median_finalfn True (Some ?st) = Inr (Some (vals ?st ! (length (vals ?st) div 2)))"
    using cnt len by (intro finalfn_middle) simp_all
  then have "median txt argtype rows = Inr (Some (vals ?st ! (length (accepted rows) div 2)))"
    using run len by (simp add: median_def)
  with run perm srt key cnt
  show "\<exists>st. transfn_rows txt argtype None rows = Inr (Some st) \<and>
            mset (vals st) = mset (accepted rows) \<and>
            sorted_wrt (kind_le txt argtype) (vals st) \<and>
            vals st = sort_key (kind_key txt argtype) (accepted rows) \<and>
            sint (num_vals st) = int (length (accepted rows)) \<and>
            median txt argtype rows = Inr (Some (vals st ! (length (accepted rows) div 2)))"
    by blast
next
  assume kinds: "argtype = INT8OID \<or> argtype = INT4OID \<or> argtype = INT2OID"
  show "median txt argtype [Some 5, Some 1, Some 3] = Inr (Some 3)"
    using kinds
    by (elim disjE)
      (simp_all add: median_def median_transfn_def median_finalfn_def Oid_defs Let_def
        int8_cmp_def int4_cmp_def int2_cmp_def DatumGetInt64_def DatumGetInt32_def
        DatumGetInt16_def word_sle_eq signed_divide_int_def follow_next_drop)
  show "median txt argtype [Some 1, Some 2, Some 3, Some 4] = Inr (Some 3)"
    using kinds
    by (elim disjE)
      (simp_all add: median_def median_transfn_def median_finalfn_def Oid_defs Let_def
        int8_cmp_def int4_cmp_def int2_cmp_def DatumGetInt64_def DatumGetInt32_def
        DatumGetInt16_def word_sle_eq signed_divide_int_def follow_next_drop)
qed

theorem median_finalfn_middle_witness:
  "vals \<lparr>vals = [1, 3, 5], num_vals = 3\<rparr> \<noteq> [] \<and>
   sint (num_vals \<lparr>vals = [1, 3, 5], num_vals = 3\<rparr>) = int (length (vals \<lparr>vals = [1, 3, 5], num_vals = 3\<rparr>)) \<and>
   median_finalfn True (Some \<lparr>vals = [1, 3, 5], num_vals = 3\<rparr>) = Inr (Some 3) \<and>
   supported FLOAT8OID \<and>
   \<not> has_nan FLOAT8OID [Some 0x4014000000000000, None, Some 0x3FF0000000000000,
     Some 0x4008000000000000, Some 0x4000000000000000] \<and>
   accepted [Some 0x4014000000000000, None, Some 0x3FF0000000000000, Some 0x4008000000000000,
             Some 0x4000000000000000] \<noteq> [] \<and>
   length (accepted [Some 0x4014000000000000, None, Some 0x3FF0000000000000,
             Some 0x4008000000000000, Some (0x4000000000000000 :: Datum)]) < 2 ^ 31 \<and>
   sort_key (kind_key no_text FLOAT8OID)
     [0x4014000000000000, 0x3FF0000000000000, 0x4008000000000000, 0x4000000000000000] =
     [0x3FF0000000000000, 0x4000000000000000, 0x4008000000000000, 0x4014000000000000] \<and>
   median no_text FLOAT8OID
     [Some 0x4014000000000000, None, Some 0x3FF0000000000000, Some 0x4008000000000000,
      Some 0x4000000000000000] = Inr (Some 0x4008000000000000) \<and>
   median no_text INT2OID [Some 5, Some 1, Some 3] = Inr (Some 3) \<and>
   median no_text INT2OID [Some 1, Some 2, Some 3, Some 4] = Inr (Some 3)"
proof -
  let ?s = "\<lparr>vals = [1, 3, 5], num_vals = 3\<rparr> :: SortMemoryState"
  let ?rows = "[Some 0x4014000000000000, None, Some 0x3FF0000000000000,
     Some 0x4008000000000000, Some (0x4000000000000000 :: Datum)]"
  note mid = median_finalfn_middle [of ?s FLOAT8OID ?rows no_text]
  have s: "vals ?s \<noteq> []" "sint (num_vals ?s) = int (length (vals ?s))"
    by simp_all
  with mid have fin: "median_finalfn True (Some ?s) = Inr (Some 3)"
    by simp
  have sup: "supported FLOAT8OID"
    by (simp add: supported_def)
  have nn: "\<not> has_nan FLOAT8OID ?rows"
    by (simp add: float_eval)
  have ne: "accepted ?rows \<noteq> []" and small: "length (accepted ?rows) < 2 ^ 31"
    by simp_all
  have key: "sort_key (kind_key no_text FLOAT8OID)
     [0x4014000000000000, 0x3FF0000000000000, 0x4008000000000000, 0x4000000000000000] =
     [0x3FF0000000000000, 0x4000000000000000, 0x4008000000000000, 0x4014000000000000]"
    by (simp add: kind_key_def float_eval)
  from mid [THEN conjunct2, THEN conjunct1, rule_format, OF sup nn ne small]
  have "median no_text FLOAT8OID ?rows =
      Inr (Some (sort_key (kind_key no_text FLOAT8OID) (accepted ?rows) !
                   (length (accepted ?rows) div 2)))"
    by (elim exE conjE) (simp only:)
  then have "median no_text FLOAT8OID ?rows = Inr (Some 0x4008000000000000)"
    using key by simp
  moreover have "median no_text INT2OID [Some 5, Some 1, Some 3] = Inr (Some 3)"
    "median no_text INT2OID [Some 1, Some 2, Some 3, Some 4] = Inr (Some 3)"
    using median_finalfn_middle [of ?s INT2OID "[]" no_text] by simp_all
  ultimately show ?thesis
    using s fin sup nn ne small key by simp
qed

text \<open>
  As stated, for every \<open>n \<ge> 1\<close>, the claim fails where the counter wraps around:
  after the value 0 and \<open>2 ^ 31 - 1\<close> values 1 of kind \<open>INT4OID\<close> the list has
  \<open>2 ^ 31\<close> members and is sorted, the counter is \<open>- (2 ^ 31)\<close>, the index is
  negative, no link is followed and the result is the head 0, while the member at
  index \<open>2 ^ 31 div 2\<close> is 1.
\<close>

theorem counter_wraps_at_2_31:
  "supported INT4OID \<and>
   transfn_rows no_text INT4OID None (Some 0 # replicate (2 ^ 31 - 1) (Some 1)) =
     Inr (Some \<lparr>vals = 0 # replicate (2 ^ 31 - 1) 1, num_vals = 2147483648\<rparr>) \<and>
   sorted_wrt (kind_le no_text INT4OID) (0 # replicate (2 ^ 31 - 1) 1) \<and>
   length (0 # replicate (2 ^ 31 - 1) (1 :: Datum)) = 2 ^ 31 \<and>
   (0 # replicate (2 ^ 31 - 1) (1 :: Datum)) ! (2 ^ 31 div 2) = 1 \<and>
   median no_text INT4OID (Some 0 # replicate (2 ^ 31 - 1) (Some 1)) = Inr (Some 0)"
  by (rule count_wraps) simp

section \<open>A group of NULL rows\<close>

text \<open>
  Claim C2 asks for SQL NULL from every group without an accepted value. A group
  without rows gives SQL NULL. A group of one or more rows that are all NULL does
  not: the first call creates a state with an empty list and the counter 0, the
  final function finds a state, computes the index 0 and reads the \<^verbatim>\<open>val\<close> field
  of the \<^verbatim>\<open>NULL\<close> head.
\<close>

theorem all_null_group_dereferences_null:
  "median txt argtype (replicate (Suc n) None) = Inl Null_Dereference \<and>
   median txt argtype [] = Inr None"
proof -
  have "transfn_rows txt argtype (Some s) (replicate k None) = Inr (Some s)" for s k
    by (induction k) (simp_all add: transfn_null)
  then have "transfn_rows txt argtype None (replicate (Suc n) None) =
             Inr (Some \<lparr>vals = [], num_vals = 0\<rparr>)"
    by (simp add: transfn_null)
  then show ?thesis
    by (simp add: median_def median_finalfn_def signed_divide_int_def)
qed

section \<open>Kinds the switch does not name\<close>

text \<open>
  Claim C3 asks for an error that leaves the state as it is. The switch has no
  \<^verbatim>\<open>default\<close> case: under a type identifier it does not name (1114 is
  \<^verbatim>\<open>TIMESTAMPOID\<close>) a call never raises an error. On a list that is not empty it
  links nothing and adds 1 to the counter all the same; on an empty list it stores
  the value as the first one.
\<close>

theorem unsupported_kind_is_counted:
  assumes "\<not> supported argtype"
  shows "median_transfn txt True argtype (Some s) (Some d) =
           Inr (if vals s = [] then s\<lparr>num_vals := 1, vals := [d]\<rparr>
                else s\<lparr>num_vals := num_vals s + 1\<rparr>)"
proof (cases "vals s = []")
  case True
  then show ?thesis
    by (simp add: median_transfn_def)
next
  case False
  with assms show ?thesis
    by (simp add: median_transfn_def supported_def)
qed

theorem unsupported_kind_is_counted_witness:
  "\<not> supported 1114 \<and>
   median_transfn no_text True 1114 (Some \<lparr>vals = [5], num_vals = 1\<rparr>) (Some 7) =
     Inr \<lparr>vals = [5], num_vals = 2\<rparr> \<and>
   median_transfn no_text True 1114 (Some \<lparr>vals = [], num_vals = 0\<rparr>) (Some 7) =
     Inr \<lparr>vals = [7], num_vals = 1\<rparr>"
  using unsupported_kind_is_counted [of 1114 no_text "\<lparr>vals = [5], num_vals = 1\<rparr>" 7]
    unsupported_kind_is_counted [of 1114 no_text "\<lparr>vals = [], num_vals = 0\<rparr>" 7]
  by (simp add: supported_def Oid_defs)

section \<open>Sortedness\<close>

text \<open>
  For rows of one supported kind none of which holds a NaN (the integer kinds and
  text have none), the list is non-decreasing under the comparison of the kind
  after every call, that is, after every initial part of the rows.
\<close>

theorem sorted_after_each_call:
  assumes "supported argtype" and "\<not> has_nan argtype rows"
  shows "\<exists>st. transfn_rows txt argtype None (take n rows) = Inr st \<and>
           sorted_wrt (kind_le txt argtype) (ordered_values st)"
proof -
  have "\<not> has_nan argtype (take n rows)"
    using assms(2) by (rule has_nan_take)
  with assms(1) show ?thesis
    using rows_sorted [of argtype "take n rows" "txt"] by blast
qed

theorem sorted_after_each_call_witness:
  "supported FLOAT4OID \<and>
   \<not> has_nan FLOAT4OID [Some 0x3F800000, None, Some 0xBF800000, Some 0x7F800000, Some 0] \<and>
   transfn_rows no_text FLOAT4OID None
     (take 4 [Some 0x3F800000, None, Some 0xBF800000, Some 0x7F800000, Some 0]) =
     Inr (Some \<lparr>vals = [0xBF800000, 0x3F800000, 0x7F800000], num_vals = 3\<rparr>) \<and>
   sorted_wrt (kind_le no_text FLOAT4OID) [0xBF800000, 0x3F800000, 0x7F800000]"
proof -
  have sup: "supported FLOAT4OID"
    by (simp add: supported_def)
  have nn: "\<not> has_nan FLOAT4OID [Some 0x3F800000, None, Some 0xBF800000, Some 0x7F800000, Some 0]"
    by (simp add: float_eval)
  have run: "transfn_rows no_text FLOAT4OID None
     (take 4 [Some 0x3F800000, None, Some 0xBF800000, Some 0x7F800000, Some 0]) =
     Inr (Some \<lparr>vals = [0xBF800000, 0x3F800000, 0x7F800000], num_vals = 3\<rparr>)"
    unfolding transfn_rows_None [OF sup]
    by (simp add: insert_after_def float_eval)
  from sorted_after_each_call [OF sup nn, of no_text 4] run
  have "sorted_wrt (kind_le no_text FLOAT4OID) [0xBF800000, 0x3F800000, 0x7F800000]"
    by (simp add: ordered_values_def)
  with sup nn run show ?thesis by simp
qed

text \<open>
  Claim C4 asks for a list that is non-decreasing under the comparison of the kind
  after each call, for every sequence of values of one supported kind. The float
  routines do not keep it so when a value is a NaN: \<^verbatim>\<open>1.0 <= NaN\<close> is false, so
  after the rows 1.0 and NaN the NaN \<open>0x7FF8000000000000\<close> is linked in front of
  \<open>0x3FF0000000000000\<close>, which is 1.0, and \<^verbatim>\<open>NaN <= 1.0\<close> is false as well: the
  list is not non-decreasing.
\<close>

theorem nan_breaks_sortedness:
  "supported FLOAT8OID \<and>
   transfn_rows no_text FLOAT8OID None [Some 0x3FF0000000000000, Some 0x7FF8000000000000] =
     Inr (Some \<lparr>vals = [0x7FF8000000000000, 0x3FF0000000000000], num_vals = 2\<rparr>) \<and>
   \<not> sorted_wrt (kind_le no_text FLOAT8OID) [0x7FF8000000000000, 0x3FF0000000000000]"
proof -
  have sup: "supported FLOAT8OID"
    by (simp add: supported_def)
  have "transfn_rows no_text FLOAT8OID None [Some 0x3FF0000000000000, Some 0x7FF8000000000000] =
     Inr (Some \<lparr>vals = [0x7FF8000000000000, 0x3FF0000000000000], num_vals = 2\<rparr>)"
    unfolding transfn_rows_None [OF sup]
    by (simp add: insert_after_def float_eval)
  moreover have "\<not> kind_le no_text FLOAT8OID 0x7FF8000000000000 0x3FF0000000000000"
    by (simp add: float_eval)
  ultimately show ?thesis using sup by simp
qed

section \<open>The counter\<close>

text \<open>
  Claim C5 asks for a counter that is the length of the list. Under a type
  identifier the switch does not name, the first value is stored and every later
  one is only counted: after the rows the list has one member and the counter is
  the number of accepted values. With two or more values the final function then
  walks off the end of the list.
\<close>

theorem unsupported_kind_count_exceeds_length:
  assumes "\<not> supported argtype"
  shows "transfn_rows txt argtype None (Some d # rows) =
           Inr (Some \<lparr>vals = [d], num_vals = 1 + of_nat (length (accepted rows))\<rparr>) \<and>
         (accepted rows \<noteq> [] \<longrightarrow> length (accepted rows) < 2 ^ 31 - 1 \<longrightarrow>
            median txt argtype (Some d # rows) = Inl Null_Dereference)"
proof -
  let ?st = "\<lparr>vals = [d], num_vals = 1 + of_nat (length (accepted rows))\<rparr>"
  have run: "transfn_rows txt argtype None (Some d # rows) = Inr (Some ?st)"
    using assms by (simp add: transfn_first transfn_rows_unsupported_Some)
  have "median txt argtype (Some d # rows) = Inl Null_Dereference"
    if ne: "accepted rows \<noteq> []" and small: "length (accepted rows) < 2 ^ 31 - 1"
  proof -
    have "num_vals ?st = of_nat (Suc (length (accepted rows)))" by simp
    moreover have "Suc (length (accepted rows)) < 2 ^ 31" using small by simp
    ultimately have cnt: "sint (num_vals ?st) = int (Suc (length (accepted rows)))"
      by (simp only: sint_count)
    have "length (accepted rows) \<ge> 1" using ne by (cases "accepted rows") simp_all
    then have "int (length (vals ?st)) \<le> sint (num_vals ?st) sdiv 2"
      unfolding cnt by (simp add: signed_divide_int_def sgn_if)
    then have "median_finalfn True (Some ?st) = Inl Null_Dereference"
      by (rule finalfn_short)
    with run show ?thesis by (simp add: median_def)
  qed
  with run show ?thesis by blast
qed

theorem unsupported_kind_count_exceeds_length_witness:
  "\<not> supported 1114 \<and>
   transfn_rows no_text 1114 None [Some 5, Some 7] = Inr (Some \<lparr>vals = [5], num_vals = 2\<rparr>) \<and>
   median no_text 1114 [Some 5, Some 7] = Inl Null_Dereference"
  using unsupported_kind_count_exceeds_length [of 1114 no_text 5 "[Some 7]"]
  by (simp add: supported_def Oid_defs)

section \<open>Ties\<close>

text \<open>
  For rows of one supported kind and a new value, none of them
  a NaN, the list before the call falls into the members below the new value, the
  members tied with it and the members above it, and the call puts the new value
  right behind the tied ones. So the members tied with any value stand in the
  list in the order of their rows. Five texts 3, 1, 3, 2, 3 behind the pointers
  \<open>a\<close> to \<open>e\<close> end as \<open>b, d, a, c, e\<close>: the three texts 3 in row order.
\<close>

theorem insertion_is_stable:
  "(supported argtype \<longrightarrow> \<not> has_nan argtype (rows @ [Some v]) \<longrightarrow>
      (\<exists>st st' ys es zs.
         transfn_rows txt argtype None rows = Inr st \<and>
         median_transfn txt True argtype st (Some v) = Inr st' \<and>
         ordered_values st = ys @ es @ zs \<and> vals st' = ys @ es @ v # zs \<and>
         (\<forall>y\<in>set ys. kind_less txt argtype y v) \<and>
         (\<forall>e\<in>set es. kind_eq txt argtype e v) \<and>
         (\<forall>z\<in>set zs. kind_less txt argtype v z) \<and>
         (\<forall>k. filter (kind_eq txt argtype k) (vals st') =
              filter (kind_eq txt argtype k) (accepted rows @ [v])))) \<and>
   (txt a = ''3'' \<longrightarrow> txt b = ''1'' \<longrightarrow> txt c = ''3'' \<longrightarrow> txt d = ''2'' \<longrightarrow> txt e = ''3'' \<longrightarrow>
      transfn_rows txt TEXTOID None [Some a, Some b, Some c, Some d, Some e] =
        Inr (Some \<lparr>vals = [b, d, a, c, e], num_vals = 5\<rparr>))"
proof (intro conjI impI)
  assume sup: "supported argtype" and nan: "\<not> has_nan argtype (rows @ [Some v])"
  from nan have nn: "\<not> has_nan argtype rows" and nv: "\<not> is_nan argtype v"
    by simp_all
  let ?xs = "foldl (\<lambda>ys v. insert_after (kind_le txt argtype) v ys) [] (accepted rows)"
  obtain st where st: "transfn_rows txt argtype None rows = Inr st"
    and ov: "ordered_values st = ?xs"
    using rows_state [OF sup] by blast
  have nna: "\<forall>d\<in>set [] \<union> set (accepted rows). \<not> is_nan argtype d"
    using nn by (simp add: has_nan_accepted)
  have srt: "sorted (map (kind_key txt argtype) ?xs)"
    using sup nna by (rule sorted_insert_all) simp
  have nnx: "\<forall>c\<in>set ?xs. \<not> is_nan argtype c"
    using nna by simp
  then have "\<forall>c\<in>set ?xs.
      kind_le txt argtype c v \<longleftrightarrow> kind_key txt argtype c \<le> kind_key txt argtype v"
    using sup nv by (simp add: kind_le_key)
  from insert_after_split [where le = "kind_le txt argtype" and key = "kind_key txt argtype"
      and v = v and xs = ?xs, OF this srt] obtain ys es zs where
    split: "?xs = ys @ es @ zs" "insert_after (kind_le txt argtype) v ?xs = ys @ es @ v # zs"
    and ys: "\<forall>y\<in>set ys. kind_key txt argtype y < kind_key txt argtype v"
    and es: "\<forall>e\<in>set es. kind_key txt argtype e = kind_key txt argtype v"
    and zs: "\<forall>z\<in>set zs. kind_key txt argtype v < kind_key txt argtype z"
    by blast
  obtain st' where st': "median_transfn txt True argtype st (Some v) = Inr st'"
    and vals': "vals st' = insert_after (kind_le txt argtype) v ?xs"
    using transfn_on_rows_state [OF sup, of "txt" st v] ov by auto
  have parts: "\<forall>c\<in>set ys \<union> set es \<union> set zs. \<not> is_nan argtype c"
    using nnx unfolding split(1) by simp
  have less: "\<forall>y\<in>set ys. kind_less txt argtype y v"
    using ys parts nv sup by (simp add: kind_less_key)
  have eq: "\<forall>e\<in>set es. kind_eq txt argtype e v"
    using es parts nv sup by (simp add: kind_eq_key)
  have greater: "\<forall>z\<in>set zs. kind_less txt argtype v z"
    using zs parts nv sup by (simp add: kind_less_key)
  have "\<forall>d\<in>set (accepted rows @ [v]). \<not> is_nan argtype d"
    using nna nv by simp
  then have "filter (kind_eq txt argtype k)
               (foldl (\<lambda>ys v. insert_after (kind_le txt argtype) v ys) [] (accepted rows @ [v])) =
             filter (kind_eq txt argtype k) (accepted rows @ [v])" for k
    using sup by (intro ties_kind_eq)
  then have ties: "\<forall>k. filter (kind_eq txt argtype k) (vals st') =
                    filter (kind_eq txt argtype k) (accepted rows @ [v])"
    using vals' by simp
  have "ordered_values st = ys @ es @ zs" "vals st' = ys @ es @ v # zs"
    using ov vals' split by simp_all
  with st st' less eq greater ties
  show "\<exists>st st' ys es zs.
         transfn_rows txt argtype None rows = Inr st \<and>
         median_transfn txt True argtype st (Some v) = Inr st' \<and>
         ordered_values st = ys @ es @ zs \<and> vals st' = ys @ es @ v # zs \<and>
         (\<forall>y\<in>set ys. kind_less txt argtype y v) \<and>
         (\<forall>e\<in>set es. kind_eq txt argtype e v) \<and>
         (\<forall>z\<in>set zs. kind_less txt argtype v z) \<and>
         (\<forall>k. filter (kind_eq txt argtype k) (vals st') =
              filter (kind_eq txt argtype k) (accepted rows @ [v]))"
    by blast
next
  assume t: "txt a = ''3''" "txt b = ''1''" "txt c = ''3''" "txt d = ''2''" "txt e = ''3''"
  show "transfn_rows txt TEXTOID None [Some a, Some b, Some c, Some d, Some e] =
        Inr (Some \<lparr>vals = [b, d, a, c, e], num_vals = 5\<rparr>)"
    unfolding transfn_rows_None [OF supported_TEXTOID]
    by (simp add: insert_after_def kind_le_TEXTOID t)
qed

theorem insertion_is_stable_witness:
  "supported FLOAT8OID \<and>
   \<not> has_nan FLOAT8OID ([Some 0, Some 0x3FF0000000000000] @ [Some 0x8000000000000000]) \<and>
   transfn_rows no_text FLOAT8OID None [Some 0, Some 0x3FF0000000000000] =
     Inr (Some \<lparr>vals = [0, 0x3FF0000000000000], num_vals = 2\<rparr>) \<and>
   median_transfn no_text True FLOAT8OID (Some \<lparr>vals = [0, 0x3FF0000000000000], num_vals = 2\<rparr>)
     (Some 0x8000000000000000) =
     Inr \<lparr>vals = [0, 0x8000000000000000, 0x3FF0000000000000], num_vals = 3\<rparr> \<and>
   kind_eq no_text FLOAT8OID 0 0x8000000000000000 \<and>
   kind_less no_text FLOAT8OID 0x8000000000000000 0x3FF0000000000000 \<and>
   transfn_rows (\<lambda>p. if p = 2 then ''1'' else if p = 4 then ''2'' else ''3'') TEXTOID None
     [Some 1, Some 2, Some 3, Some 4, Some 5] =
     Inr (Some \<lparr>vals = [2, 4, 1, 3, 5], num_vals = 5\<rparr>)"
proof -
  let ?txt = "\<lambda>p :: Datum. if p = 2 then ''1'' else if p = 4 then ''2'' else ''3''"
  have sup: "supported FLOAT8OID"
    by (simp add: supported_def)
  have nn: "\<not> has_nan FLOAT8OID ([Some 0, Some 0x3FF0000000000000] @ [Some 0x8000000000000000])"
    by (simp add: float_eval)
  have run: "transfn_rows no_text FLOAT8OID None [Some 0, Some 0x3FF0000000000000] =
     Inr (Some \<lparr>vals = [0, 0x3FF0000000000000], num_vals = 2\<rparr>)"
    unfolding transfn_rows_None [OF sup]
    by (simp add: insert_after_def float_eval)
  have step: "median_transfn no_text True FLOAT8OID
     (Some \<lparr>vals = [0, 0x3FF0000000000000], num_vals = 2\<rparr>) (Some 0x8000000000000000) =
     Inr \<lparr>vals = [0, 0x8000000000000000, 0x3FF0000000000000], num_vals = 3\<rparr>"
    by (simp add: median_transfn_def Let_def float8_cmp_def float_eval)
  have rel: "kind_eq no_text FLOAT8OID 0 0x8000000000000000"
    "kind_less no_text FLOAT8OID 0x8000000000000000 0x3FF0000000000000"
    by (simp_all add: float_eval)
  have "?txt 1 = ''3''" "?txt 2 = ''1''" "?txt 3 = ''3''" "?txt 4 = ''2''" "?txt 5 = ''3''"
    by simp_all
  from insertion_is_stable [of FLOAT8OID "[Some 0, Some 0x3FF0000000000000]"
      "0x8000000000000000" "?txt" 1 2 3 4 5, THEN conjunct2, rule_format, OF this]
  have "transfn_rows ?txt TEXTOID None [Some 1, Some 2, Some 3, Some 4, Some 5] =
     Inr (Some \<lparr>vals = [2, 4, 1, 3, 5], num_vals = 5\<rparr>)" .
  with sup nn run step rel show ?thesis by simp
qed

text \<open>
  Claim C6 asks that a new value is placed right behind all members tied with it,
  for every list. The float routines do not do so on a list with a NaN: after the
  rows 0.0 and NaN the list is NaN, 0.0, and the new value \<open>0x8000000000000000\<close>,
  which is -0.0 and tied with 0.0, is linked in front of the NaN, before the member
  it is tied with.
\<close>

theorem nan_breaks_stability:
  "supported FLOAT8OID \<and>
   transfn_rows no_text FLOAT8OID None [Some 0, Some 0x7FF8000000000000] =
     Inr (Some \<lparr>vals = [0x7FF8000000000000, 0], num_vals = 2\<rparr>) \<and>
   kind_eq no_text FLOAT8OID 0 0x8000000000000000 \<and>
   median_transfn no_text True FLOAT8OID (Some \<lparr>vals = [0x7FF8000000000000, 0], num_vals = 2\<rparr>)
     (Some 0x8000000000000000) =
     Inr \<lparr>vals = [0x8000000000000000, 0x7FF8000000000000, 0], num_vals = 3\<rparr>"
proof -
  have sup: "supported FLOAT8OID"
    by (simp add: supported_def)
  have "transfn_rows no_text FLOAT8OID None [Some 0, Some 0x7FF8000000000000] =
     Inr (Some \<lparr>vals = [0x7FF8000000000000, 0], num_vals = 2\<rparr>)"
    unfolding transfn_rows_None [OF sup]
    by (simp add: insert_after_def float_eval)
  moreover have "kind_eq no_text FLOAT8OID 0 0x8000000000000000"
    by (simp add: float_eval)
  moreover have "median_transfn no_text True FLOAT8OID
     (Some \<lparr>vals = [0x7FF8000000000000, 0], num_vals = 2\<rparr>) (Some 0x8000000000000000) =
     Inr \<lparr>vals = [0x8000000000000000, 0x7FF8000000000000, 0], num_vals = 3\<rparr>"
    by (simp add: median_transfn_def Let_def float8_cmp_def float_eval)
  ultimately show ?thesis using sup by simp
qed

section \<open>The first value\<close>

text \<open>
  Claim C7. On a state whose list is empty (or on no state at all), a value that is
  not NULL becomes the only member of the list and the counter becomes 1, whatever
  the type identifier and the text memory are: no comparison routine is called. The
  final function returns that value from such a state.
\<close>

theorem first_value_fast_path:
  assumes "ordered_values arg0 = []"
  shows "median_transfn txt True argtype arg0 (Some d) = Inr \<lparr>vals = [d], num_vals = 1\<rparr> \<and>
         median_finalfn True (Some \<lparr>vals = [d], num_vals = 1\<rparr>) = Inr (Some d)"
proof -
  have "median_transfn txt True argtype arg0 (Some d) = Inr \<lparr>vals = [d], num_vals = 1\<rparr>"
    using assms
    by (cases arg0) (simp_all add: median_transfn_def ordered_values_def)
  moreover have "median_finalfn True (Some \<lparr>vals = [d], num_vals = 1\<rparr>) = Inr (Some d)"
    by (simp add: median_finalfn_def signed_divide_int_def)
  ultimately show ?thesis by simp
qed

theorem first_value_fast_path_witness:
  "median_transfn no_text True FLOAT8OID None (Some 7) = Inr \<lparr>vals = [7], num_vals = 1\<rparr> \<and>
   median_transfn no_text True 16 (Some \<lparr>vals = [], num_vals = 0\<rparr>) (Some 7) =
     Inr \<lparr>vals = [7], num_vals = 1\<rparr> \<and>
   median_finalfn True (Some \<lparr>vals = [7], num_vals = 1\<rparr>) = Inr (Some 7)"
  using first_value_fast_path [of None no_text FLOAT8OID 7]
    first_value_fast_path [of "Some \<lparr>vals = [], num_vals = 0\<rparr>" no_text 16 7]
  by (simp add: ordered_values_def)

section \<open>Text\<close>

text \<open>
  Claim C8. Under \<open>TEXTOID\<close> the list is sorted by the lexicographic order of
  the bytes of the texts. Three rows with the texts banana, apple and cherry end
  as apple, banana, cherry, and the result is the pointer to banana.
\<close>

theorem text_sorted_bytewise:
  "(\<exists>st. transfn_rows txt TEXTOID None rows = Inr st \<and>
      sorted_wrt (\<lambda>a b. txt a = txt b \<or>
                   (txt a, txt b) \<in> lexord {(x, y). (of_char x :: nat) < of_char y})
        (ordered_values st)) \<and>
   (txt a = ''banana'' \<longrightarrow> txt b = ''apple'' \<longrightarrow> txt c = ''cherry'' \<longrightarrow>
      (\<exists>st r. transfn_rows txt TEXTOID None [Some a, Some b, Some c] = Inr (Some st) \<and>
         map txt (vals st) = [''apple'', ''banana'', ''cherry''] \<and>
         median txt TEXTOID [Some a, Some b, Some c] = Inr (Some r) \<and> txt r = ''banana''))"
proof (intro conjI impI)
  obtain st where st: "transfn_rows txt TEXTOID None rows = Inr st"
    and srt: "sorted_wrt (kind_le txt TEXTOID) (ordered_values st)"
    using rows_sorted [OF supported_TEXTOID has_nan_TEXTOID] by blast
  have "sorted_wrt (\<lambda>a b. txt a = txt b \<or>
                   (txt a, txt b) \<in> lexord {(x, y). (of_char x :: nat) < of_char y})
        (ordered_values st)"
    using srt by (simp add: kind_le_TEXTOID [abs_def] strcmp_le_lexord)
  with st show "\<exists>st. transfn_rows txt TEXTOID None rows = Inr st \<and>
      sorted_wrt (\<lambda>a b. txt a = txt b \<or>
                   (txt a, txt b) \<in> lexord {(x, y). (of_char x :: nat) < of_char y})
        (ordered_values st)"
    by blast
next
  assume t: "txt a = ''banana''" "txt b = ''apple''" "txt c = ''cherry''"
  have run: "transfn_rows txt TEXTOID None [Some a, Some b, Some c] =
             Inr (Some \<lparr>vals = [b, a, c], num_vals = 3\<rparr>)"
    unfolding transfn_rows_None [OF supported_TEXTOID]
    by (simp add: insert_after_def kind_le_TEXTOID t)
  have fin: "median_finalfn True (Some \<lparr>vals = [b, a, c], num_vals = 3\<rparr>) = Inr (Some a)"
    using finalfn_middle [of "\<lparr>vals = [b, a, c], num_vals = 3\<rparr>"] by simp
  show "\<exists>st r. transfn_rows txt TEXTOID None [Some a, Some b, Some c] = Inr (Some st) \<and>
         map txt (vals st) = [''apple'', ''banana'', ''cherry''] \<and>
         median txt TEXTOID [Some a, Some b, Some c] = Inr (Some r) \<and> txt r = ''banana''"
    using run fin t by (simp add: median_def)
qed

theorem text_sorted_bytewise_witness:
  "transfn_rows (\<lambda>p. if p = 1 then ''banana'' else if p = 2 then ''apple'' else ''cherry'')
     TEXTOID None [Some 1, Some 2, Some 3] = Inr (Some \<lparr>vals = [2, 1, 3], num_vals = 3\<rparr>) \<and>
   median (\<lambda>p. if p = 1 then ''banana'' else if p = 2 then ''apple'' else ''cherry'')
     TEXTOID [Some 1, Some 2, Some 3] = Inr (Some 1)"
proof -
  let ?txt = "\<lambda>p :: Datum. if p = 1 then ''banana'' else if p = 2 then ''apple'' else ''cherry''"
  have "?txt 1 = ''banana''" "?txt 2 = ''apple''" "?txt 3 = ''cherry''"
    by simp_all
  from text_sorted_bytewise [of "?txt" _ 1 2 3, THEN conjunct2, rule_format, OF this]
  obtain st r where st: "transfn_rows ?txt TEXTOID None [Some 1, Some 2, Some 3] = Inr (Some st)"
    "map ?txt (vals st) = [''apple'', ''banana'', ''cherry'']"
    and r: "median ?txt TEXTOID [Some 1, Some 2, Some 3] = Inr (Some r)" "?txt r = ''banana''"
    by auto
  have "transfn_rows ?txt TEXTOID None [Some 1, Some 2, Some 3] =
      Inr (Some \<lparr>vals = [2, 1, 3], num_vals = 3\<rparr>)"
    unfolding transfn_rows_None [OF supported_TEXTOID]
    by (simp add: insert_after_def kind_le_TEXTOID)
  moreover have "r = 1" using r(2) by (simp split: if_splits)
  ultimately show ?thesis using r(1) by simp
qed

section \<open>Timestamps\<close>

text \<open>
  Claim C9. The transition function does the same under the type identifier
  \<open>TIMESTAMPTZOID\<close> as under \<open>INT8OID\<close>: every call returns the same
  state, so every sequence of rows ends in the same state and the same result.
\<close>

theorem timestamptz_as_int8:
  "median_transfn txt agg TIMESTAMPTZOID arg0 arg1 = median_transfn txt agg INT8OID arg0 arg1 \<and>
   transfn_rows txt TIMESTAMPTZOID arg0 rows = transfn_rows txt INT8OID arg0 rows \<and>
   median txt TIMESTAMPTZOID rows = median txt INT8OID rows"
proof -
  have step: "median_transfn txt agg TIMESTAMPTZOID st row = median_transfn txt agg INT8OID st row"
    for agg st row
    by (simp add: median_transfn_def Let_def split: option.split)
  have run: "transfn_rows txt TIMESTAMPTZOID st rows = transfn_rows txt INT8OID st rows" for st
    by (induction rows arbitrary: st) (simp_all add: step split: sum.split)
  show ?thesis
    by (simp add: step run median_def)
qed

section \<open>Null rows\<close>

text \<open>
  Claim C10. A call of the transition function whose value is SQL NULL returns the
  state it was given, with the same list and the same counter; on the first call of
  a group, where there is no state yet, it returns a new state with an empty list
  and the counter 0. Any number of NULL rows leave a state as it is.
\<close>

theorem null_row_keeps_state:
  "median_transfn txt True argtype (Some s) None = Inr s \<and>
   median_transfn txt True argtype None None = Inr \<lparr>vals = [], num_vals = 0\<rparr> \<and>
   transfn_rows txt argtype (Some s) (replicate n None) = Inr (Some s)"
proof -
  have "transfn_rows txt argtype (Some s) (replicate n None) = Inr (Some s)"
    by (induction n) (simp_all add: transfn_null)
  then show ?thesis
    by (simp add: transfn_null)
qed

end
